theory Spec2Isabelle
  imports Main
begin

section \<open>Go standard library functions used by the package\<close>

text \<open>
  Go strings are byte sequences; they are modelled as \<open>string\<close> (a list of 8-bit
  characters). The functions below are the library calls of \<open>i18n.go\<close> and
  \<open>locale.go\<close>, modelled from their documented behaviour.
\<close>

fun strings_HasPrefix :: "string \<Rightarrow> string \<Rightarrow> bool" where
  "strings_HasPrefix s [] = True"
| "strings_HasPrefix [] (p # ps) = False"
| "strings_HasPrefix (c # cs) (p # ps) = (c = p \<and> strings_HasPrefix cs ps)"

fun strings_Contains :: "string \<Rightarrow> string \<Rightarrow> bool" where
  "strings_Contains [] substr = (substr = [])"
| "strings_Contains (c # cs) substr =
     (strings_HasPrefix (c # cs) substr \<or> strings_Contains cs substr)"

text \<open>
  \<open>splitAt s0 ss cur s\<close> scans \<open>s\<close> for the next leftmost occurrence of the
  separator \<open>s0 # ss\<close>; \<open>cur\<close> holds the bytes of the current segment, reversed.
\<close>

fun splitAt :: "char \<Rightarrow> string \<Rightarrow> string \<Rightarrow> string \<Rightarrow> string list" where
  "splitAt s0 ss cur [] = [rev cur]"
| "splitAt s0 ss cur (c # cs) =
     (if c = s0 \<and> strings_HasPrefix cs ss
      then rev cur # splitAt s0 ss [] (drop (length ss) cs)
      else splitAt s0 ss (c # cur) cs)"

text \<open>
  \<open>strings.Split(s, sep)\<close>. The package only splits on the non-empty separators
  \<open>" | "\<close> and \<open>"."\<close>; for an empty separator Go explodes the string into UTF-8
  sequences, which is written here bytewise.
\<close>

definition strings_Split :: "string \<Rightarrow> string \<Rightarrow> string list" where
  "strings_Split s sep =
     (case sep of [] \<Rightarrow> map (\<lambda>c. [c]) s | s0 # ss \<Rightarrow> splitAt s0 ss [] s)"

text \<open>
  \<open>strings.ToLower\<close> on the ASCII range. Go also lowers non-ASCII letters; bytes
  from 128 on are left as they are here, so the model is that of Go on ASCII input.
\<close>

definition lowerByte :: "char \<Rightarrow> char" where
  "lowerByte c =
     (let n = (of_char c :: nat) in if 65 \<le> n \<and> n \<le> 90 then char_of (n + 32) else c)"

definition strings_ToLower :: "string \<Rightarrow> string" where
  "strings_ToLower s = map lowerByte s"

text \<open>\<open>strings.ReplaceAll(s, old, new)\<close> for one-byte \<open>old\<close> and \<open>new\<close>.\<close>

definition strings_ReplaceAll :: "string \<Rightarrow> char \<Rightarrow> char \<Rightarrow> string" where
  "strings_ReplaceAll s old new = map (\<lambda>c. if c = old then new else c) s"

text \<open>
  \<open>filepath.Base\<close> with the separator \<open>/\<close>: the empty path gives \<open>"."\<close>,
  trailing separators are dropped, the last element is returned, and a path of
  separators only gives \<open>"/"\<close>.
\<close>

definition stripTrailingSlashes :: "string \<Rightarrow> string" where
  "stripTrailingSlashes p = rev (dropWhile (\<lambda>c. c = CHR ''/'') (rev p))"

definition lastElement :: "string \<Rightarrow> string" where
  "lastElement p = rev (takeWhile (\<lambda>c. c \<noteq> CHR ''/'') (rev p))"

definition filepath_Base :: "string \<Rightarrow> string" where
  "filepath_Base path =
     (if path = [] then ''.''
      else let p = lastElement (stripTrailingSlashes path)
           in if p = [] then ''/'' else p)"

text \<open>\<open>fmt.Sprintf("%s <%s>", name, context)\<close>.\<close>

definition sprintfContext :: "string \<Rightarrow> string \<Rightarrow> string" where
  "sprintfContext name context = name @ '' <'' @ context @ ''>''"

section \<open>Data model\<close>

text \<open>
  \<open>text/template\<close> is an external engine. It is a parameter of the model:
  \<open>Parse\<close> is \<open>template.New("").Parse\<close> (\<open>None\<close> when parsing fails, where Go
  returns a nil template), \<open>Execute\<close> gives the bytes written to the buffer for a
  template and the data (\<open>None\<close> is \<open>nil\<close>).
\<close>

record ('t, 'd) engine =
  Parse :: "string \<Rightarrow> 't option"
  Execute :: "'t \<Rightarrow> 'd option \<Rightarrow> string"

type_synonym Pluralizor = "int \<Rightarrow> int \<Rightarrow> int"

text \<open>
  The fields \<open>text\<close> and \<open>locale\<close> of the source are written \<open>ctext\<close> and
  \<open>tlocale\<close>, and the field \<open>locale\<close> of \<open>Locale\<close> is written \<open>bound\<close>, as
  \<open>text\<close> and \<open>locale\<close> are keywords here. The pointer \<open>parent\<close> of a
  \<open>Locale\<close> is the core that the operations take and return.
\<close>

record 't compiledText =
  ctext :: string
  tmpl :: "'t option"

record 't compiledTranslation =
  tlocale :: string
  name :: string
  pluralizor :: Pluralizor
  texts :: "'t compiledText list"

datatype error = Error string

datatype panic = IndexOutOfRange

type_synonym Unmarshaler = "string \<Rightarrow> error + (string \<times> string) list"

text \<open>
  The core. The field \<open>translations\<close> of the source is never read or written and is
  left out. A Go map is a partial function; reading a missing key of a map of maps
  gives the nil map, whose reads all miss.
\<close>

record 't I18n =
  defaultLocale :: string
  pluralizors :: "string \<rightharpoonup> Pluralizor"
  unmarshaler :: Unmarshaler
  fallbacks :: "string \<rightharpoonup> string list"
  runtimeCompiledTranslations :: "string \<rightharpoonup> 't compiledTranslation"
  compiledTranslations :: "string \<rightharpoonup> (string \<rightharpoonup> 't compiledTranslation)"

record Locale =
  bound :: string

definition WithUnmarshaler :: "Unmarshaler \<Rightarrow> 't I18n \<Rightarrow> 't I18n" where
  "WithUnmarshaler u i = i\<lparr>unmarshaler := u\<rparr>"

definition WithFallback :: "(string \<rightharpoonup> string list) \<Rightarrow> 't I18n \<Rightarrow> 't I18n" where
  "WithFallback f i = i\<lparr>fallbacks := f\<rparr>"

definition WithPluralizor :: "(string \<rightharpoonup> Pluralizor) \<Rightarrow> 't I18n \<Rightarrow> 't I18n" where
  "WithPluralizor p i = i\<lparr>pluralizors := p\<rparr>"

text \<open>\<open>New\<close>; \<open>json\<close> stands for \<open>json.Unmarshal\<close>, the default unmarshaler.\<close>

definition New :: "Unmarshaler \<Rightarrow> string \<Rightarrow> ('t I18n \<Rightarrow> 't I18n) list \<Rightarrow> 't I18n" where
  "New json dl options =
     fold (\<lambda>opt i. opt i) options
       \<lparr>defaultLocale = dl, pluralizors = Map.empty, unmarshaler = json,
        fallbacks = Map.empty, runtimeCompiledTranslations = Map.empty,
        compiledTranslations = Map.empty\<rparr>"

section \<open>Compiler\<close>

definition defaultPluralizor :: Pluralizor where
  "defaultPluralizor number choices =
     (if choices = 2 then (if number = 0 \<or> number = 1 then 0 else 1)
      else (if number = 0 then 0 else if number = 1 then 1 else 2))"

definition I18n_pluralizor :: "'t I18n \<Rightarrow> string \<Rightarrow> Pluralizor" where
  "I18n_pluralizor i lang =
     (case pluralizors i lang of None \<Rightarrow> defaultPluralizor | Some v \<Rightarrow> v)"

text \<open>
  \<open>contextRegExp\<close> is the regular expression \<open><(.*?)>$\<close>. A match starts at a
  \<open><\<close> and ends with a \<open>>\<close> that is the last byte of the text; the bytes between
  them are any bytes but a newline. \<open>contextAt s\<close> says that the expression matches
  all of \<open>s\<close>.
\<close>

definition contextAt :: "string \<Rightarrow> bool" where
  "contextAt s =
     (case s of [] \<Rightarrow> False
      | c # r \<Rightarrow> c = CHR ''<'' \<and> r \<noteq> [] \<and> last r = CHR ''>'' \<and>
          CHR 0x0A \<notin> set (butlast r))"

text \<open>
  \<open>trimContext\<close> is \<open>contextRegExp.ReplaceAllString(v, "")\<close>: the leftmost match
  is removed; it reaches the end of the text, so there is no second match.
\<close>

fun trimContext :: "string \<Rightarrow> string" where
  "trimContext [] = []"
| "trimContext (c # cs) = (if contextAt (c # cs) then [] else c # trimContext cs)"

definition compileSegment :: "('t, 'd) engine \<Rightarrow> string \<Rightarrow> 't compiledText" where
  "compileSegment E v =
     (if strings_Contains v ''{{'' then \<lparr>ctext = [], tmpl = Parse E v\<rparr>
      else \<lparr>ctext = v, tmpl = None\<rparr>)"

definition compileText :: "('t, 'd) engine \<Rightarrow> string \<Rightarrow> 't compiledText list" where
  "compileText E s = map (compileSegment E) (strings_Split s '' | '')"

definition compileTranslation ::
  "('t, 'd) engine \<Rightarrow> 't I18n \<Rightarrow> string \<Rightarrow> string \<Rightarrow> string \<Rightarrow> 't compiledTranslation" where
  "compileTranslation E i lc nm s =
     \<lparr>tlocale = lc, name = nm, pluralizor = I18n_pluralizor i lc, texts = compileText E s\<rparr>"

definition nameInsenstive :: "string \<Rightarrow> string" where
  "nameInsenstive v =
     strings_ReplaceAll
       (strings_ToLower (hd (strings_Split (filepath_Base v) ''.''))) (CHR ''_'') (CHR ''-'')"

section \<open>Translation store and fallback resolution\<close>

text \<open>\<open>i.compiledTranslations[lc][nm]\<close>, read and written.\<close>

definition storeGet :: "'t I18n \<Rightarrow> string \<Rightarrow> string \<Rightarrow> 't compiledTranslation option" where
  "storeGet i lc nm = (case compiledTranslations i lc of None \<Rightarrow> None | Some m \<Rightarrow> m nm)"

definition storePut ::
  "'t I18n \<Rightarrow> string \<Rightarrow> string \<Rightarrow> 't compiledTranslation \<Rightarrow> 't I18n" where
  "storePut i lc nm v =
     i\<lparr>compiledTranslations :=
         (compiledTranslations i)
           (lc \<mapsto> (case compiledTranslations i lc of None \<Rightarrow> Map.empty | Some m \<Rightarrow> m)
                    (nm \<mapsto> v))\<rparr>"

text \<open>
  \<open>lookupBestFallback\<close> calls itself inside its loop, and nothing bounds the depth of
  the calls, so the result is an option: \<open>None\<close> is a walk that never returns,
  \<open>Some None\<close> is the result \<open>nil\<close>, \<open>Some (Some v)\<close> a translation.
  \<open>walkFallbacks i nm fbs\<close> is the loop \<open>for _, fallback := range fallbacks\<close> on the
  rest \<open>fbs\<close> of the chain, with the body of the recursive call written out.
\<close>

partial_function (option) walkFallbacks ::
  "'t I18n \<Rightarrow> string \<Rightarrow> string list \<Rightarrow> 't compiledTranslation option option" where
  "walkFallbacks i nm fbs =
     (case fbs of
        [] \<Rightarrow> Some None
      | fallback # rest \<Rightarrow>
          (case storeGet i fallback nm of
             Some v \<Rightarrow> Some (Some v)
           | None \<Rightarrow>
               Option.bind
                 (case fallbacks i fallback of
                    None \<Rightarrow>
                      (case storeGet i (defaultLocale i) nm of
                         Some v \<Rightarrow> Some (Some v)
                       | None \<Rightarrow> Some None)
                  | Some fbs' \<Rightarrow> walkFallbacks i nm fbs')
                 (\<lambda>j. case j of
                         Some t \<Rightarrow> Some (Some t)
                       | None \<Rightarrow> walkFallbacks i nm rest)))"

definition lookupBestFallback ::
  "'t I18n \<Rightarrow> string \<Rightarrow> string \<Rightarrow> 't compiledTranslation option option" where
  "lookupBestFallback i lc nm =
     (case fallbacks i lc of
        None \<Rightarrow>
          (case storeGet i (defaultLocale i) nm of
             Some v \<Rightarrow> Some (Some v)
           | None \<Rightarrow> walkFallbacks i nm [])
      | Some fbs \<Rightarrow> walkFallbacks i nm fbs)"

text \<open>
  Go ranges over a map in an order of the runtime's choice. The order is a parameter:
  \<open>namesOrder\<close> lists the keys of the default locale's map for the outer loop of
  \<open>compileFallbacks\<close>, \<open>localesOrder k\<close> the keys of the store for the inner loop
  run at the key \<open>k\<close>. An element that is not a key of the map is passed over.
\<close>

record rangeOrder =
  namesOrder :: "string list"
  localesOrder :: "string \<Rightarrow> string list"

fun compileFallbacks_inner ::
  "'t I18n \<Rightarrow> string \<Rightarrow> string list \<Rightarrow> 't I18n option" where
  "compileFallbacks_inner i nm [] = Some i"
| "compileFallbacks_inner i nm (lc # rest) =
     (case compiledTranslations i lc of
        None \<Rightarrow> compileFallbacks_inner i nm rest
      | Some transl \<Rightarrow>
          if lc = defaultLocale i then compileFallbacks_inner i nm rest
          else (case transl nm of
                  Some v \<Rightarrow> compileFallbacks_inner i nm rest
                | None \<Rightarrow>
                    (case lookupBestFallback i lc nm of
                       None \<Rightarrow> None
                     | Some None \<Rightarrow> compileFallbacks_inner i nm rest
                     | Some (Some bestfit) \<Rightarrow>
                         compileFallbacks_inner (storePut i lc nm bestfit) nm rest)))"

fun compileFallbacks_outer ::
  "rangeOrder \<Rightarrow> 't I18n \<Rightarrow> string list \<Rightarrow> 't I18n option" where
  "compileFallbacks_outer ro i [] = Some i"
| "compileFallbacks_outer ro i (k # rest) =
     (case storeGet i (defaultLocale i) k of
        None \<Rightarrow> compileFallbacks_outer ro i rest
      | Some grandTrans \<Rightarrow>
          (case compileFallbacks_inner i (name grandTrans) (localesOrder ro k) of
             None \<Rightarrow> None
           | Some i' \<Rightarrow> compileFallbacks_outer ro i' rest))"

definition compileFallbacks :: "rangeOrder \<Rightarrow> 't I18n \<Rightarrow> 't I18n option" where
  "compileFallbacks ro i = compileFallbacks_outer ro i (namesOrder ro)"

section \<open>Loading\<close>

text \<open>
  The argument of \<open>LoadMap\<close> is a list of pairs in the order in which the loops range
  over it.
\<close>

type_synonym rawTexts = "(string \<times> string) list"

type_synonym languages = "(string \<times> rawTexts) list"

fun LoadMap_inner ::
  "('t, 'd) engine \<Rightarrow> 't I18n \<Rightarrow> string \<Rightarrow> rawTexts \<Rightarrow> 't I18n" where
  "LoadMap_inner E i lc [] = i"
| "LoadMap_inner E i lc ((nm, s) # rest) =
     LoadMap_inner E (storePut i lc nm (compileTranslation E i lc nm s)) lc rest"

fun LoadMap_outer :: "('t, 'd) engine \<Rightarrow> 't I18n \<Rightarrow> languages \<Rightarrow> 't I18n" where
  "LoadMap_outer E i [] = i"
| "LoadMap_outer E i ((lc0, trs) # rest) =
     (let lc = nameInsenstive lc0;
          i1 = i\<lparr>compiledTranslations := (compiledTranslations i)(lc \<mapsto> Map.empty)\<rparr>
      in LoadMap_outer E (LoadMap_inner E i1 lc trs) rest)"

text \<open>
  \<open>LoadMap\<close> gives the new core and the error result (\<open>None\<close> is \<open>nil\<close>), or
  \<open>None\<close> when the fallback pass never returns.
\<close>

definition LoadMap ::
  "('t, 'd) engine \<Rightarrow> rangeOrder \<Rightarrow> 't I18n \<Rightarrow> languages \<Rightarrow> ('t I18n \<times> error option) option" where
  "LoadMap E ro i langs =
     (case compileFallbacks ro (LoadMap_outer E i langs) of
        None \<Rightarrow> None
      | Some i' \<Rightarrow> Some (i', None))"

text \<open>\<open>data[locale][name] = text\<close> on the map that \<open>LoadFiles\<close> builds.\<close>

fun dataPut :: "languages \<Rightarrow> string \<Rightarrow> string \<Rightarrow> string \<Rightarrow> languages" where
  "dataPut [] lc nm s = [(lc, [(nm, s)])]"
| "dataPut ((l, trs) # rest) lc nm s =
     (if l = lc then (l, filter (\<lambda>e. fst e \<noteq> nm) trs @ [(nm, s)]) # rest
      else (l, trs) # dataPut rest lc nm s)"

fun dataMake :: "languages \<Rightarrow> string \<Rightarrow> languages" where
  "dataMake [] lc = [(lc, [])]"
| "dataMake ((l, trs) # rest) lc =
     (if l = lc then (l, trs) # rest else (l, trs) # dataMake rest lc)"

fun LoadFiles_merge :: "languages \<Rightarrow> string \<Rightarrow> rawTexts \<Rightarrow> languages" where
  "LoadFiles_merge data lc [] = data"
| "LoadFiles_merge data lc ((nm, s) # rest) = LoadFiles_merge (dataPut data lc nm s) lc rest"

text \<open>
  The loop of \<open>LoadFiles\<close>; \<open>readFile\<close> is \<open>os.ReadFile\<close>. It stops at the first
  file that cannot be read or decoded.
\<close>

fun LoadFiles_read ::
  "(string \<Rightarrow> error + string) \<Rightarrow> Unmarshaler \<Rightarrow> languages \<Rightarrow> string list \<Rightarrow> error + languages" where
  "LoadFiles_read readFile um data [] = Inr data"
| "LoadFiles_read readFile um data (v # vs) =
     (case readFile v of
        Inl err \<Rightarrow> Inl err
      | Inr b \<Rightarrow>
          (case um b of
             Inl err \<Rightarrow> Inl err
           | Inr transl \<Rightarrow>
               (let lc = nameInsenstive v
                in LoadFiles_read readFile um
                     (LoadFiles_merge (dataMake data lc) lc transl) vs)))"

text \<open>
  \<open>LoadFiles\<close>. On success \<open>LoadMap\<close> ranges over \<open>data\<close>, here in the order in
  which the locales and names were first put into it.
\<close>

definition LoadFiles ::
  "('t, 'd) engine \<Rightarrow> rangeOrder \<Rightarrow> (string \<Rightarrow> error + string) \<Rightarrow> 't I18n \<Rightarrow> string list \<Rightarrow>
     ('t I18n \<times> error option) option" where
  "LoadFiles E ro readFile i filenames =
     (case LoadFiles_read readFile (unmarshaler i) [] filenames of
        Inl err \<Rightarrow> Some (i, Some err)
      | Inr data \<Rightarrow> LoadMap E ro i data)"

section \<open>Locales and lookup\<close>

fun NewLocale_select :: "'t I18n \<Rightarrow> string \<Rightarrow> string list \<Rightarrow> string" where
  "NewLocale_select i selectedLocale [] = selectedLocale"
| "NewLocale_select i selectedLocale (v # vs) =
     (case compiledTranslations i (nameInsenstive v) of
        Some m \<Rightarrow> nameInsenstive v
      | None \<Rightarrow> NewLocale_select i selectedLocale vs)"

definition NewLocale :: "'t I18n \<Rightarrow> string list \<Rightarrow> Locale" where
  "NewLocale i locales = \<lparr>bound = NewLocale_select i (defaultLocale i) locales\<rparr>"

text \<open>
  \<open>lookup\<close> writes the runtime cache, so it gives the translation and the new core.
\<close>

definition lookup ::
  "('t, 'd) engine \<Rightarrow> Locale \<Rightarrow> 't I18n \<Rightarrow> string \<Rightarrow> 't compiledTranslation \<times> 't I18n" where
  "lookup E l i nm =
     (case storeGet i (bound l) nm of
        Some selectedTrans \<Rightarrow> (selectedTrans, i)
      | None \<Rightarrow>
          (let runtimeTrans =
                 (case runtimeCompiledTranslations i nm of
                    Some t \<Rightarrow> t
                  | None \<Rightarrow> compileTranslation E i (defaultLocale i) nm (trimContext nm))
           in (runtimeTrans,
               i\<lparr>runtimeCompiledTranslations :=
                   (runtimeCompiledTranslations i)(nm \<mapsto> runtimeTrans)\<rparr>)))"

definition render :: "('t, 'd) engine \<Rightarrow> 't compiledText \<Rightarrow> 'd list \<Rightarrow> string" where
  "render E t data =
     (case tmpl t of
        Some tp \<Rightarrow> (case data of d # ds \<Rightarrow> Execute E tp (Some d) | [] \<Rightarrow> Execute E tp None)
      | None \<Rightarrow> ctext t)"

text \<open>
  \<open>xs[k]\<close> on a slice: Go panics when \<open>k\<close> is negative or not below the length.
\<close>

definition sliceIndex :: "'a list \<Rightarrow> int \<Rightarrow> panic + 'a" where
  "sliceIndex xs k =
     (if 0 \<le> k \<and> k < int (length xs) then Inr (xs ! nat k) else Inl IndexOutOfRange)"

definition String ::
  "('t, 'd) engine \<Rightarrow> Locale \<Rightarrow> 't I18n \<Rightarrow> string \<Rightarrow> 'd list \<Rightarrow> (panic + string) \<times> 't I18n" where
  "String E l i nm data =
     (let (selectedTrans, i') = lookup E l i nm
      in (case sliceIndex (texts selectedTrans) 0 of
            Inl p \<Rightarrow> (Inl p, i')
          | Inr t \<Rightarrow> (Inr (render E t data), i')))"

definition StringX ::
  "('t, 'd) engine \<Rightarrow> Locale \<Rightarrow> 't I18n \<Rightarrow> string \<Rightarrow> string \<Rightarrow> 'd list \<Rightarrow>
     (panic + string) \<times> 't I18n" where
  "StringX E l i nm context data = String E l i (sprintfContext nm context) data"

definition Number ::
  "('t, 'd) engine \<Rightarrow> Locale \<Rightarrow> 't I18n \<Rightarrow> string \<Rightarrow> int \<Rightarrow> 'd list \<Rightarrow>
     (panic + string) \<times> 't I18n" where
  "Number E l i nm count data =
     (let (selectedTrans, i') = lookup E l i nm;
          selectedIndex = pluralizor selectedTrans count (int (length (texts selectedTrans)))
      in (case sliceIndex (texts selectedTrans) selectedIndex of
            Inl p \<Rightarrow> (Inl p, i')
          | Inr t \<Rightarrow> (Inr (render E t data), i')))"

definition NumberX ::
  "('t, 'd) engine \<Rightarrow> Locale \<Rightarrow> 't I18n \<Rightarrow> string \<Rightarrow> string \<Rightarrow> int \<Rightarrow> 'd list \<Rightarrow>
     (panic + string) \<times> 't I18n" where
  "NumberX E l i nm context count data = Number E l i (sprintfContext nm context) count data"

section \<open>Configurations used in the statements\<close>

text \<open>
  The statements below are evaluated at small configurations. \<open>plainEngine\<close> is an
  engine that parses every text and writes it back as it is, \<open>noDecoder\<close> an
  unmarshaler that rejects every file, \<open>sameOrder ns ls\<close> the range order that visits
  the names \<open>ns\<close> and, at every name, the locales \<open>ls\<close>. \<open>afterLoad r f\<close> applies
  \<open>f\<close> to the core that a load returned.
\<close>

definition plainEngine :: "(string, string) engine" where
  "plainEngine = \<lparr>Parse = (\<lambda>s. Some s), Execute = (\<lambda>t d. t)\<rparr>"

definition noDecoder :: Unmarshaler where
  "noDecoder b = Inl (Error ''no decoder'')"

definition sameOrder :: "string list \<Rightarrow> string list \<Rightarrow> rangeOrder" where
  "sameOrder ns ls = \<lparr>namesOrder = ns, localesOrder = (\<lambda>k. ls)\<rparr>"

definition afterLoad :: "('t I18n \<times> error option) option \<Rightarrow> ('t I18n \<Rightarrow> 'a) \<Rightarrow> 'a option" where
  "afterLoad r f = (case r of None \<Rightarrow> None | Some (i, err) \<Rightarrow> Some (f i))"

text \<open>
  What \<open>render\<close> gives for one compiled segment: the template's output when the
  segment holds a template marker, the segment itself otherwise.
\<close>

definition renderSegment :: "('t, 'd) engine \<Rightarrow> string \<Rightarrow> 'd list \<Rightarrow> string" where
  "renderSegment E seg data =
     (if strings_Contains seg ''{{''
      then (case Parse E seg of
              None \<Rightarrow> []
            | Some tp \<Rightarrow> Execute E tp (case data of [] \<Rightarrow> None | d # ds \<Rightarrow> Some d))
      else seg)"

text \<open>The error, if any, that \<open>LoadFiles\<close> meets at one file.\<close>

definition fileError :: "(string \<Rightarrow> error + string) \<Rightarrow> Unmarshaler \<Rightarrow> string \<Rightarrow> error option" where
  "fileError readFile um v =
     (case readFile v of
        Inl e \<Rightarrow> Some e
      | Inr b \<Rightarrow> (case um b of Inl e \<Rightarrow> Some e | Inr m \<Rightarrow> None))"

definition twoForms :: "string compiledTranslation" where
  "twoForms = compileTranslation plainEngine (New noDecoder ''en'' []) ''en'' ''n'' ''one | many''"

text \<open>
  \<open>oneFile\<close> is a file system that holds the one file \<open>en.json\<close>, and
  \<open>emptyDecoder\<close> decodes every file to the empty map.
\<close>

definition oneFile :: "string \<Rightarrow> error + string" where
  "oneFile v = (if v = ''en.json'' then Inr ''{}'' else Inl (Error ''no such file''))"

definition emptyDecoder :: Unmarshaler where
  "emptyDecoder b = Inr []"

text \<open>
  The graph of a fallback configuration: an edge \<open>(f, l)\<close> for every entry \<open>f\<close>
  of the chain configured for \<open>l\<close>.
\<close>

definition fallbackEdges :: "'t I18n \<Rightarrow> (string \<times> string) set" where
  "fallbackEdges i = {(f, l). \<exists>fbs. fallbacks i l = Some fbs \<and> f \<in> set fbs}"

text \<open>
  \<open>cyclicCore\<close> has the cyclic configuration \<open>a \<rightarrow> b \<rightarrow> a\<close> and the default
  locale \<open>en\<close>; \<open>chainCore\<close> has the chain \<open>ja-jp \<rightarrow> ko-kr \<rightarrow> zh-tw\<close> and the
  default locale \<open>zh-tw\<close>, and \<open>chainRank\<close> orders its locales.
\<close>

definition cyclicCore :: "string I18n" where
  "cyclicCore = New noDecoder ''en'' [WithFallback [''a'' \<mapsto> [''b''], ''b'' \<mapsto> [''a'']]]"

definition chainCore :: "string I18n" where
  "chainCore =
     New noDecoder ''zh-tw'' [WithFallback [''ja-jp'' \<mapsto> [''ko-kr''], ''ko-kr'' \<mapsto> [''zh-tw'']]]"

definition chainRank :: "string \<Rightarrow> nat" where
  "chainRank l = (if l = ''ja-jp'' then 2 else if l = ''ko-kr'' then 1 else 0)"

text \<open>
  \<open>readmeCore\<close> is the configuration of the README: default locale \<open>ja-jp\<close>,
  \<open>zh-tw\<close> falling back to \<open>zh-hk\<close>, then \<open>zh-cn\<close>.
\<close>

definition readmeCore :: "string I18n" where
  "readmeCore = New noDecoder ''ja-jp'' [WithFallback [''zh-tw'' \<mapsto> [''zh-hk'', ''zh-cn'']]]"

text \<open>
  The recursive configuration \<open>ja-jp \<rightarrow> ko-kr \<rightarrow> zh-tw\<close>, a core that has it with the
  default locale \<open>en-us\<close>, and a batch in which \<open>k\<close> is defined in \<open>en-us\<close> and
  \<open>zh-tw\<close> only. \<open>chainInv k t s\<close> is what stays true of a core \<open>s\<close> with this
  configuration during the backfill pass, when \<open>zh-tw\<close> defines \<open>k\<close> as \<open>t\<close>:
  \<open>ko-kr\<close> and \<open>ja-jp\<close> hold either nothing or \<open>t\<close> at \<open>k\<close>.
\<close>

definition recursiveChain :: "string \<rightharpoonup> string list" where
  "recursiveChain = [''ja-jp'' \<mapsto> [''ko-kr''], ''ko-kr'' \<mapsto> [''zh-tw'']]"

definition recursiveCore :: "string I18n" where
  "recursiveCore = New noDecoder ''en-us'' [WithFallback recursiveChain]"

definition chainInv :: "string \<Rightarrow> 't compiledTranslation \<Rightarrow> 't I18n \<Rightarrow> bool" where
  "chainInv k t s \<longleftrightarrow>
     fallbacks s = recursiveChain \<and> defaultLocale s \<noteq> ''ja-jp'' \<and>
     storeGet s ''zh-tw'' k = Some t \<and> storeGet s (defaultLocale s) k \<noteq> None \<and>
     storeGet s ''ko-kr'' k \<in> {None, Some t} \<and> storeGet s ''ja-jp'' k \<in> {None, Some t} \<and>
     compiledTranslations s ''ja-jp'' \<noteq> None"

definition testBatch :: languages where
  "testBatch =
     [(''en-us'', [(''k'', ''E'')]), (''zh-tw'', [(''k'', ''Z'')]),
      (''ja-jp'', [(''hello'', ''X'')]), (''ko-kr'', [(''hello'', ''Y'')])]"

text \<open>
  \<open>backfilled s s'\<close> relates a core to a later core of the backfill pass: the default
  locale is the same, no entry of \<open>s\<close> is lost or changed, and every entry of \<open>s'\<close>
  is an entry of \<open>s\<close> or, in a locale other than the default one, a copy of an entry
  that \<open>s\<close> holds for the same name.
\<close>

definition backfilled :: "'t I18n \<Rightarrow> 't I18n \<Rightarrow> bool" where
  "backfilled s s' \<longleftrightarrow>
     defaultLocale s' = defaultLocale s \<and>
     (\<forall>lc n v. storeGet s lc n = Some v \<longrightarrow> storeGet s' lc n = Some v) \<and>
     (\<forall>lc n v. storeGet s' lc n = Some v \<longrightarrow>
        storeGet s lc n = Some v \<or>
        lc \<noteq> defaultLocale s \<and> (\<exists>f. storeGet s f n = Some v))"

text \<open>\<open>firstLoad\<close> is the core after a first \<open>LoadMap\<close> of the entry \<open>(en, n1)\<close>.\<close>

definition firstLoad :: "string I18n" where
  "firstLoad =
     (case LoadMap plainEngine (sameOrder [''n1''] [''en'']) (New noDecoder ''en'' [])
             [(''en'', [(''n1'', ''A'')])] of
        None \<Rightarrow> New noDecoder ''en'' []
      | Some (i, err) \<Rightarrow> i)"

section \<open>Library and compiler lemmas\<close>

lemmas canon_defs = nameInsenstive_def strings_ReplaceAll_def strings_ToLower_def lowerByte_def
  strings_Split_def filepath_Base_def lastElement_def stripTrailingSlashes_def

lemma splitAt_not_Nil: "splitAt s0 ss cur s \<noteq> []"
  by (induction s0 ss cur s rule: splitAt.induct) auto

lemma strings_Split_not_Nil: "strings_Split s (s0 # ss) \<noteq> []"
  by (simp add: strings_Split_def splitAt_not_Nil)

lemma splitAt_no_separator:
  "\<not> strings_Contains s (s0 # ss) \<Longrightarrow> splitAt s0 ss cur s = [rev cur @ s]"
  by (induction s arbitrary: cur) auto

lemma strings_Split_no_separator:
  "\<not> strings_Contains s (s0 # ss) \<Longrightarrow> strings_Split s (s0 # ss) = [s]"
  by (simp add: strings_Split_def splitAt_no_separator)

lemma trimContext_no_bracket: "CHR ''<'' \<notin> set s \<Longrightarrow> trimContext s = s"
  by (induction s) (auto simp: contextAt_def)

lemma compileText_not_Nil: "compileText E s \<noteq> []"
  by (simp add: compileText_def strings_Split_not_Nil)

lemma length_compileText: "length (compileText E s) = length (strings_Split s '' | '')"
  by (simp add: compileText_def)

lemma render_compileSegment: "render E (compileSegment E seg) data = renderSegment E seg data"
  by (cases data) (auto simp: render_def compileSegment_def renderSegment_def split: option.splits)

lemma sliceIndex_0: "xs \<noteq> [] \<Longrightarrow> sliceIndex xs 0 = Inr (hd xs)"
  by (cases xs) (auto simp: sliceIndex_def)

lemma nameInsenstive_en: "nameInsenstive ''en'' = ''en''"
  by (simp add: canon_defs)

lemma defaultPluralizor_bounds:
  "2 \<le> choices \<Longrightarrow> 0 \<le> defaultPluralizor number choices \<and> defaultPluralizor number choices < choices"
  by (simp add: defaultPluralizor_def)

section \<open>Pluralization\<close>

text \<open>
  C2, as stated, at its own instance: a translation with one segment, the default
  pluralizor and the count 2. The loaded translation has one variant, the selected
  index is 2, and \<open>Number\<close> panics on the slice access.
\<close>

theorem Number_one_variant_count_2_counterexample:
  "afterLoad
     (LoadMap plainEngine (sameOrder [''msg''] [''en'']) (New noDecoder ''en'' [])
        [(''en'', [(''msg'', ''hello'')])])
     (\<lambda>i. (map_option (\<lambda>t. (pluralizor t 2 (int (length (texts t))), length (texts t)))
               (storeGet i ''en'' ''msg''),
            fst (Number plainEngine (NewLocale i [''en'']) i ''msg'' 2 [])))
   = Some (Some (2, 1), Inl IndexOutOfRange)"
  by (simp add: afterLoad_def Let_def LoadMap_def New_def nameInsenstive_en storePut_def storeGet_def
      compileFallbacks_def sameOrder_def compileTranslation_def compileText_def strings_Split_def
      compileSegment_def I18n_pluralizor_def Number_def NewLocale_def lookup_def sliceIndex_def
      defaultPluralizor_def)

text \<open>
  C2, amended: a translation compiled with the default pluralizor from a text of at
  least two segments selects, for every count, an index that is not negative and is
  below the number of variants, and \<open>Number\<close> renders that variant.
\<close>

theorem Number_default_pluralizor_in_bounds:
  assumes "storeGet i (bound l) nm = Some t"
    and "t = compileTranslation E i0 lc nm0 s"
    and "pluralizors i0 lc = None"
    and "2 \<le> length (strings_Split s '' | '')"
  shows "0 \<le> pluralizor t count (int (length (texts t))) \<and>
         pluralizor t count (int (length (texts t))) < int (length (texts t)) \<and>
         Number E l i nm count data =
           (Inr (render E (texts t ! nat (pluralizor t count (int (length (texts t))))) data), i)"
proof -
  let ?n = "int (length (texts t))"
  have len: "2 \<le> ?n"
    using assms(2,4) by (simp add: compileTranslation_def length_compileText)
  have plz: "pluralizor t = defaultPluralizor"
    using assms(2,3) by (simp add: compileTranslation_def I18n_pluralizor_def)
  from defaultPluralizor_bounds [OF len, of count]
  have b: "0 \<le> defaultPluralizor count ?n" "defaultPluralizor count ?n < ?n" by simp_all
  have "Number E l i nm count data =
          (Inr (render E (texts t ! nat (defaultPluralizor count ?n)) data), i)"
    using assms(1) b by (simp add: Number_def lookup_def plz sliceIndex_def)
  with b plz show ?thesis by simp
qed

theorem Number_default_pluralizor_in_bounds_witness:
  "storeGet (storePut (New noDecoder ''en'' []) ''en'' ''n'' twoForms) (bound \<lparr>bound = ''en''\<rparr>) ''n''
     = Some twoForms \<and>
   pluralizors (New noDecoder ''en'' [] :: string I18n) ''en'' = None \<and>
   2 \<le> length (strings_Split ''one | many'' '' | '') \<and>
   pluralizor twoForms 5 (int (length (texts twoForms))) < int (length (texts twoForms)) \<and>
   Number plainEngine \<lparr>bound = ''en''\<rparr> (storePut (New noDecoder ''en'' []) ''en'' ''n'' twoForms)
       ''n'' 5 [] =
     (Inr (render plainEngine
             (texts twoForms ! nat (pluralizor twoForms 5 (int (length (texts twoForms))))) []),
      storePut (New noDecoder ''en'' []) ''en'' ''n'' twoForms)"
proof -
  have h1: "storeGet (storePut (New noDecoder ''en'' []) ''en'' ''n'' twoForms)
              (bound \<lparr>bound = ''en''\<rparr>) ''n'' = Some twoForms"
    by (simp add: storeGet_def storePut_def)
  have h2: "pluralizors (New noDecoder ''en'' [] :: string I18n) ''en'' = None"
    by (simp add: New_def)
  have h3: "2 \<le> length (strings_Split ''one | many'' '' | '')"
    by (simp add: strings_Split_def)
  show ?thesis
    using h1 h2 h3
      Number_default_pluralizor_in_bounds [OF h1 twoForms_def h2 h3, where count = 5 and data = "[]"]
    by simp
qed

section \<open>Unregistered keys\<close>

text \<open>
  C7 at \<open>StringX("Post", "adjective")\<close> on an empty store: the expression
  \<open>contextRegExp\<close> does not take the space before \<open><\<close>, so the result is
  \<open>"Post "\<close> with the space, while \<open>String("Post")\<close> gives \<open>"Post"\<close>.
\<close>

theorem StringX_unmatched_context_keeps_space:
  "fst (StringX E (NewLocale (New noDecoder ''en'' []) []) (New noDecoder ''en'' [])
          ''Post'' ''adjective'' data) = Inr ''Post '' \<and>
   fst (String E (NewLocale (New noDecoder ''en'' []) []) (New noDecoder ''en'' [])
          ''Post'' data) = Inr ''Post''"
  by (simp add: Let_def StringX_def String_def sprintfContext_def lookup_def storeGet_def New_def
      NewLocale_def compileTranslation_def compileText_def strings_Split_def contextAt_def
      compileSegment_def sliceIndex_def render_def)

text \<open>
  C6, as stated, at the key \<open>"a | b"\<close>: it holds no template marker, and
  \<open>String\<close> returns its first segment \<open>"a"\<close>, not the key.
\<close>

theorem String_unregistered_key_counterexample:
  "\<not> strings_Contains ''a | b'' ''{{'' \<and>
   fst (String plainEngine (NewLocale (New noDecoder ''en'' []) []) (New noDecoder ''en'' [])
          ''a | b'' []) = Inr ''a''"
  by (simp add: Let_def String_def lookup_def storeGet_def New_def
      NewLocale_def compileTranslation_def compileText_def strings_Split_def contextAt_def
      compileSegment_def sliceIndex_def render_def)

text \<open>
  C6, amended: for a key that is neither in the bound locale's map nor in the runtime
  cache, \<open>String\<close> always returns a string, the rendering of the first
  \<open>" | "\<close>-separated segment of the key without its context suffix: the segment as a
  template when it holds \<open>{{\<close>, the segment itself otherwise. For a key without
  \<open>{{\<close>, \<open>" | "\<close> and \<open><\<close> this is the key itself.
\<close>

theorem String_unregistered_key:
  assumes "storeGet i (bound l) nm = None"
    and "runtimeCompiledTranslations i nm = None"
  shows "fst (String E l i nm data) =
           Inr (renderSegment E (hd (strings_Split (trimContext nm) '' | '')) data) \<and>
         (\<not> strings_Contains nm ''{{'' \<and> \<not> strings_Contains nm '' | '' \<and> CHR ''<'' \<notin> set nm
            \<longrightarrow> fst (String E l i nm data) = Inr nm)"
proof -
  have 1: "fst (String E l i nm data) =
           Inr (renderSegment E (hd (strings_Split (trimContext nm) '' | '')) data)"
    using assms
    by (simp add: Let_def String_def lookup_def compileTranslation_def sliceIndex_0 compileText_not_Nil)
       (simp add: compileText_def hd_map strings_Split_not_Nil render_compileSegment)
  have 2: "fst (String E l i nm data) = Inr nm"
    if "\<not> strings_Contains nm ''{{''" "\<not> strings_Contains nm '' | ''" "CHR ''<'' \<notin> set nm"
    using that 1
    by (simp add: trimContext_no_bracket strings_Split_no_separator renderSegment_def)
  from 1 2 show ?thesis by blast
qed

theorem String_unregistered_key_witness:
  "storeGet (New noDecoder ''en'' [] :: string I18n) (bound \<lparr>bound = ''en''\<rparr>) ''Thank you!'' = None \<and>
   runtimeCompiledTranslations (New noDecoder ''en'' [] :: string I18n) ''Thank you!'' = None \<and>
   \<not> strings_Contains ''Thank you!'' ''{{'' \<and> \<not> strings_Contains ''Thank you!'' '' | '' \<and>
   CHR ''<'' \<notin> set ''Thank you!'' \<and>
   fst (String plainEngine \<lparr>bound = ''en''\<rparr> (New noDecoder ''en'' []) ''Thank you!'' [])
     = Inr ''Thank you!''"
proof -
  have h1: "storeGet (New noDecoder ''en'' [] :: string I18n) (bound \<lparr>bound = ''en''\<rparr>)
              ''Thank you!'' = None"
    by (simp add: storeGet_def New_def)
  have h2: "runtimeCompiledTranslations (New noDecoder ''en'' [] :: string I18n) ''Thank you!'' = None"
    by (simp add: New_def)
  have h3: "\<not> strings_Contains ''Thank you!'' ''{{'' \<and> \<not> strings_Contains ''Thank you!'' '' | '' \<and>
            CHR ''<'' \<notin> set ''Thank you!''"
    by simp
  show ?thesis
    using h1 h2 h3 String_unregistered_key [OF h1 h2, of plainEngine "[]"]
    by blast
qed


lemma lookup_again:
  assumes "storeGet i (bound l) nm = None"
  shows "lookup E' l (snd (lookup E l i nm)) nm = lookup E l i nm"
  using assms by (simp add: lookup_def storeGet_def Let_def)

text \<open>
  C8: for a key that is not in the bound locale's map, the first lookup leaves its
  result in the runtime cache under the key as given; a second lookup of the same
  key returns that cached translation and the same core whatever engine it is given,
  so it does not compile; and a second \<open>String\<close> with the same key and data
  gives the same output.
\<close>

theorem lookup_memoized:
  assumes "storeGet i (bound l) nm = None"
  shows "runtimeCompiledTranslations (snd (lookup E l i nm)) nm = Some (fst (lookup E l i nm)) \<and>
         lookup E' l (snd (lookup E l i nm)) nm = lookup E l i nm \<and>
         String E l (snd (String E l i nm data)) nm data = String E l i nm data"
proof -
  have 1: "runtimeCompiledTranslations (snd (lookup E l i nm)) nm = Some (fst (lookup E l i nm))"
    using assms by (simp add: lookup_def Let_def)
  have 2: "snd (String E l i nm data) = snd (lookup E l i nm)"
    by (simp add: String_def split: prod.splits sum.splits)
  have 3: "String E l (snd (lookup E l i nm)) nm data = String E l i nm data"
    unfolding String_def lookup_again [OF assms] ..
  from 1 2 3 lookup_again [OF assms] show ?thesis by simp
qed

theorem lookup_memoized_witness:
  "storeGet (New noDecoder ''en'' [] :: string I18n) (bound \<lparr>bound = ''en''\<rparr>) ''Post <verb>'' = None \<and>
   runtimeCompiledTranslations
     (snd (lookup plainEngine \<lparr>bound = ''en''\<rparr> (New noDecoder ''en'' []) ''Post <verb>''))
     ''Post <verb>''
     = Some (fst (lookup plainEngine \<lparr>bound = ''en''\<rparr> (New noDecoder ''en'' []) ''Post <verb>'')) \<and>
   String plainEngine \<lparr>bound = ''en''\<rparr>
     (snd (String plainEngine \<lparr>bound = ''en''\<rparr> (New noDecoder ''en'' []) ''Post <verb>'' []))
     ''Post <verb>'' []
     = String plainEngine \<lparr>bound = ''en''\<rparr> (New noDecoder ''en'' []) ''Post <verb>'' []"
proof -
  have h: "storeGet (New noDecoder ''en'' [] :: string I18n) (bound \<lparr>bound = ''en''\<rparr>)
             ''Post <verb>'' = None"
    by (simp add: storeGet_def New_def)
  show ?thesis
    using h lookup_memoized [OF h, where E = plainEngine and E' = plainEngine and data = "[]"]
    by blast
qed

section \<open>Loading from files\<close>

lemma LoadFiles_read_failure:
  assumes "\<forall>u\<in>set ok. fileError readFile um u = None"
    and "fileError readFile um v = Some e"
  shows "LoadFiles_read readFile um data (ok @ v # rest) = Inl e"
  using assms
proof (induction ok arbitrary: data)
  case Nil
  then show ?case by (auto simp: fileError_def split: sum.splits)
next
  case (Cons u ok)
  then show ?case by (auto simp: fileError_def Let_def split: sum.splits)
qed

lemma LoadMap_no_error: "LoadMap E ro i langs \<noteq> Some (i', Some e)"
  by (auto simp: LoadMap_def split: option.splits)

text \<open>
  C9: when a file of \<open>LoadFiles\<close> cannot be read or decoded, the call returns the
  error of the first such file, and the core, with every entry loaded before, is as
  it was. Whenever \<open>LoadFiles\<close> returns an error the core is unchanged.
\<close>

theorem LoadFiles_failure_keeps_store:
  "(filenames = ok @ v # rest \<and>
    (\<forall>u\<in>set ok. fileError readFile (unmarshaler i) u = None) \<and>
    fileError readFile (unmarshaler i) v = Some e
      \<longrightarrow> LoadFiles E ro readFile i filenames = Some (i, Some e)) \<and>
   (LoadFiles E ro readFile i filenames = Some (i', Some e') \<longrightarrow> i' = i)"
proof (intro conjI impI)
  assume "filenames = ok @ v # rest \<and>
    (\<forall>u\<in>set ok. fileError readFile (unmarshaler i) u = None) \<and>
    fileError readFile (unmarshaler i) v = Some e"
  then show "LoadFiles E ro readFile i filenames = Some (i, Some e)"
    by (simp add: LoadFiles_def LoadFiles_read_failure)
next
  assume "LoadFiles E ro readFile i filenames = Some (i', Some e')"
  then show "i' = i"
    by (auto simp: LoadFiles_def LoadMap_no_error split: sum.splits)
qed

theorem LoadFiles_failure_keeps_store_witness:
  "fileError oneFile emptyDecoder ''en.json'' = None \<and>
   fileError oneFile emptyDecoder ''fr.json'' = Some (Error ''no such file'') \<and>
   LoadFiles plainEngine (sameOrder [] [])  oneFile
     (storePut (New emptyDecoder ''en'' []) ''en'' ''n'' twoForms) [''en.json'', ''fr.json'']
     = Some (storePut (New emptyDecoder ''en'' []) ''en'' ''n'' twoForms, Some (Error ''no such file''))"
proof -
  have u: "unmarshaler (storePut (New emptyDecoder ''en'' []) ''en'' ''n'' twoForms) = emptyDecoder"
    by (simp add: storePut_def New_def)
  have h1: "fileError oneFile emptyDecoder ''en.json'' = None"
    by (simp add: fileError_def oneFile_def emptyDecoder_def)
  have h2: "fileError oneFile emptyDecoder ''fr.json'' = Some (Error ''no such file'')"
    by (simp add: fileError_def oneFile_def)
  have h3: "[''en.json'', ''fr.json''] = [''en.json''] @ ''fr.json'' # []" by simp
  show ?thesis
    using h1 h2 h3 u
      LoadFiles_failure_keeps_store [where filenames = "[''en.json'', ''fr.json'']"
        and ok = "[''en.json'']" and v = "''fr.json''" and rest = "[]" and readFile = oneFile
        and i = "storePut (New emptyDecoder ''en'' []) ''en'' ''n'' twoForms"
        and e = "Error ''no such file''" and E = plainEngine and ro = "sameOrder [] []"]
    by simp
qed


section \<open>The fallback walk\<close>

text \<open>The loop of \<open>lookupBestFallback\<close>, step by step.\<close>

lemma walkFallbacks_Nil: "walkFallbacks i nm [] = Some None"
  by (subst walkFallbacks.simps) simp

lemma walkFallbacks_Cons:
  "walkFallbacks i nm (fallback # rest) =
     (case storeGet i fallback nm of
        Some v \<Rightarrow> Some (Some v)
      | None \<Rightarrow>
          Option.bind (lookupBestFallback i fallback nm)
            (\<lambda>j. case j of Some t \<Rightarrow> Some (Some t) | None \<Rightarrow> walkFallbacks i nm rest))"
  by (subst walkFallbacks.simps)
     (simp add: lookupBestFallback_def walkFallbacks_Nil split: option.splits)

lemma walkFallbacks_cycle_aux:
  assumes cyc: "fallbacks i a = Some [b]" "fallbacks i b = Some [a]"
      "storeGet i a nm = None" "storeGet i b nm = None"
    and run: "walkFallbacks i0 nm0 fbs0 = Some y0"
  shows "\<not> (i0 = i \<and> nm0 = nm \<and> (fbs0 = [a] \<or> fbs0 = [b]))"
proof (rule walkFallbacks.raw_induct
    [where P = "\<lambda>i' nm' fbs y. \<not> (i' = i \<and> nm' = nm \<and> (fbs = [a] \<or> fbs = [b]))", OF _ run],
    goal_cases)
  case (1 walk i' nm' fbs y)
  show ?case
  proof
    assume h: "i' = i \<and> nm' = nm \<and> (fbs = [a] \<or> fbs = [b])"
    with 1(2) cyc have "(\<exists>r. walk i nm [a] = Some r) \<or> (\<exists>r. walk i nm [b] = Some r)"
      by (auto simp: bind_eq_Some_conv)
    with 1(1) show False by blast
  qed
qed

lemma walkFallbacks_cycle:
  assumes "fallbacks i a = Some [b]" and "fallbacks i b = Some [a]"
    and "storeGet i a nm = None" and "storeGet i b nm = None"
  shows "walkFallbacks i nm [b] = None"
proof (cases "walkFallbacks i nm [b]")
  case None
  then show ?thesis .
next
  case (Some y)
  from walkFallbacks_cycle_aux [OF assms Some] show ?thesis by simp
qed

lemma lookupBestFallback_cycle:
  assumes "fallbacks i a = Some [b]" and "fallbacks i b = Some [a]"
    and "storeGet i a nm = None" and "storeGet i b nm = None"
  shows "lookupBestFallback i a nm = None"
  using assms walkFallbacks_cycle [OF assms] by (simp add: lookupBestFallback_def)

text \<open>
  C3, as stated, at the cyclic configuration \<open>a \<rightarrow> b \<rightarrow> a\<close> with the name in
  neither locale: the walk from \<open>a\<close> never returns.
\<close>

theorem lookupBestFallback_cycle_counterexample:
  "lookupBestFallback cyclicCore ''a'' ''k'' = None"
  by (rule lookupBestFallback_cycle [where b = "''b''"])
     (simp_all add: cyclicCore_def New_def WithFallback_def storeGet_def)


lemma storePut_fields:
  "fallbacks (storePut i lc nm v) = fallbacks i"
  "defaultLocale (storePut i lc nm v) = defaultLocale i"
  "pluralizors (storePut i lc nm v) = pluralizors i"
  "unmarshaler (storePut i lc nm v) = unmarshaler i"
  "runtimeCompiledTranslations (storePut i lc nm v) = runtimeCompiledTranslations i"
  by (simp_all add: storePut_def)

lemma fallbackEdges_cong: "fallbacks i' = fallbacks i \<Longrightarrow> fallbackEdges i' = fallbackEdges i"
  by (simp add: fallbackEdges_def)

lemma fallbackEdges_storePut: "fallbackEdges (storePut i lc nm v) = fallbackEdges i"
  by (rule fallbackEdges_cong) (simp add: storePut_fields)

lemma finite_fallbackEdges:
  assumes "finite (dom (fallbacks i))"
  shows "finite (fallbackEdges i)"
proof -
  have "fallbackEdges i \<subseteq> (\<Union>l\<in>dom (fallbacks i). set (the (fallbacks i l)) \<times> {l})"
    by (auto simp: fallbackEdges_def)
  moreover have "finite (\<Union>l\<in>dom (fallbacks i). set (the (fallbacks i l)) \<times> {l})"
    using assms by simp
  ultimately show ?thesis by (rule finite_subset)
qed

lemma wf_fallbackEdges:
  "finite (dom (fallbacks i)) \<Longrightarrow> acyclic (fallbackEdges i) \<Longrightarrow> wf (fallbackEdges i)"
  by (simp add: finite_acyclic_wf finite_fallbackEdges)

lemma walkFallbacks_terminates:
  assumes "wf (fallbackEdges i)"
  shows "fallbacks i l = Some fbs \<Longrightarrow> \<exists>r. walkFallbacks i nm fbs = Some r"
  using assms
proof (induction l arbitrary: fbs rule: wf_induct_rule)
  case (less l)
  have "\<exists>r. walkFallbacks i nm xs = Some r" if "set xs \<subseteq> set fbs" for xs
    using that
  proof (induction xs)
    case Nil
    show ?case by (simp add: walkFallbacks_Nil)
  next
    case (Cons f xs)
    then obtain r' where rest: "walkFallbacks i nm xs = Some r'" by auto
    from Cons.prems less.prems have edge: "(f, l) \<in> fallbackEdges i"
      by (auto simp: fallbackEdges_def)
    have "\<exists>j. lookupBestFallback i f nm = Some j"
    proof (cases "fallbacks i f")
      case None
      then show ?thesis
        by (simp add: lookupBestFallback_def walkFallbacks_Nil split: option.splits)
    next
      case (Some fbs')
      from less.IH [OF edge Some] Some show ?thesis
        by (simp add: lookupBestFallback_def)
    qed
    then obtain j where "lookupBestFallback i f nm = Some j" ..
    with rest show ?case
      by (simp add: walkFallbacks_Cons split: option.splits)
  qed
  then show ?case by blast
qed

lemma lookupBestFallback_terminates:
  assumes "wf (fallbackEdges i)"
  shows "\<exists>r. lookupBestFallback i lc nm = Some r"
proof (cases "fallbacks i lc")
  case None
  then show ?thesis
    by (simp add: lookupBestFallback_def walkFallbacks_Nil split: option.splits)
next
  case (Some fbs)
  from walkFallbacks_terminates [OF assms Some] Some show ?thesis
    by (simp add: lookupBestFallback_def)
qed

text \<open>
  C3, amended: for every fallback configuration in which no locale is reachable from
  its own chain, the walk returns, for every locale, name and store.
\<close>

theorem lookupBestFallback_terminates_acyclic:
  assumes "finite (dom (fallbacks i))" and "acyclic (fallbackEdges i)"
  shows "\<exists>r. lookupBestFallback i lc nm = Some r"
  using assms by (intro lookupBestFallback_terminates wf_fallbackEdges)

lemma chainCore_edges: "fallbackEdges chainCore \<subseteq> measure chainRank"
  by (auto simp: fallbackEdges_def chainCore_def New_def WithFallback_def chainRank_def
      split: if_splits)

lemma chainCore_acyclic: "acyclic (fallbackEdges chainCore)"
  by (rule wf_acyclic) (rule wf_subset [OF wf_measure chainCore_edges])

lemma chainCore_finite: "finite (dom (fallbacks chainCore))"
  by (simp add: chainCore_def New_def WithFallback_def)

theorem lookupBestFallback_terminates_acyclic_witness:
  "finite (dom (fallbacks chainCore)) \<and> acyclic (fallbackEdges chainCore) \<and>
   (\<exists>r. lookupBestFallback chainCore ''ja-jp'' ''k'' = Some r)"
  using chainCore_finite chainCore_acyclic
    lookupBestFallback_terminates_acyclic [OF chainCore_finite chainCore_acyclic]
  by blast

section \<open>The backfill pass and \<open>LoadMap\<close>\<close>

lemma compileFallbacks_inner_terminates:
  assumes "wf (fallbackEdges i)"
  shows "\<exists>i'. compileFallbacks_inner i nm ls = Some i' \<and> fallbacks i' = fallbacks i"
  using assms
proof (induction ls arbitrary: i)
  case Nil
  show ?case by simp
next
  case (Cons lc ls)
  from lookupBestFallback_terminates [OF Cons.prems]
  obtain r where r: "lookupBestFallback i lc nm = Some r" by blast
  have put: "wf (fallbackEdges (storePut i lc nm v))" for v
    using Cons.prems by (simp add: fallbackEdges_storePut)
  from Cons.IH [OF Cons.prems] Cons.IH [OF put] r show ?case
    by (auto simp: storePut_fields split: option.splits)
qed

lemma compileFallbacks_outer_terminates:
  assumes "wf (fallbackEdges i)"
  shows "\<exists>i'. compileFallbacks_outer ro i ks = Some i' \<and> fallbacks i' = fallbacks i"
  using assms
proof (induction ks arbitrary: i)
  case Nil
  show ?case by simp
next
  case (Cons k ks)
  show ?case
  proof (cases "storeGet i (defaultLocale i) k")
    case None
    with Cons.IH [OF Cons.prems] show ?thesis by simp
  next
    case (Some g)
    from compileFallbacks_inner_terminates [OF Cons.prems]
    obtain i1 where i1: "compileFallbacks_inner i (name g) (localesOrder ro k) = Some i1"
      "fallbacks i1 = fallbacks i" by blast
    then have "wf (fallbackEdges i1)"
      using Cons.prems fallbackEdges_cong [of i1 i] by simp
    from Cons.IH [OF this] i1 Some show ?thesis by auto
  qed
qed

lemma fallbacks_LoadMap_inner: "fallbacks (LoadMap_inner E i lc trs) = fallbacks i"
  by (induction E i lc trs rule: LoadMap_inner.induct) (simp_all add: storePut_fields)

lemma fallbacks_LoadMap_outer: "fallbacks (LoadMap_outer E i langs) = fallbacks i"
  by (induction E i langs rule: LoadMap_outer.induct)
     (simp_all add: Let_def fallbacks_LoadMap_inner)

lemma nameInsenstive_a: "nameInsenstive ''a'' = ''a''"
  by (simp add: canon_defs)

text \<open>
  C10, as stated, at the cyclic configuration: the backfill pass of \<open>LoadMap\<close>
  walks the chain of \<open>a\<close> for the name \<open>k\<close> and never returns, so \<open>LoadMap\<close>
  returns nothing.
\<close>

theorem LoadMap_cycle_counterexample:
  "LoadMap plainEngine (sameOrder [''k''] [''en'', ''a'']) cyclicCore
     [(''en'', [(''k'', ''v'')]), (''a'', [])] = None"
proof -
  define s where "s = LoadMap_outer plainEngine cyclicCore [(''en'', [(''k'', ''v'')]), (''a'', [])]"
  have fb: "fallbacks s ''a'' = Some [''b'']" "fallbacks s ''b'' = Some [''a'']"
    unfolding s_def fallbacks_LoadMap_outer
    by (simp_all add: cyclicCore_def New_def WithFallback_def)
  have st: "defaultLocale s = ''en''" "compiledTranslations s ''a'' = Some Map.empty"
    "compiledTranslations s ''en'' \<noteq> None" "storeGet s ''a'' ''k'' = None"
    "storeGet s ''b'' ''k'' = None"
    "\<exists>g. storeGet s ''en'' ''k'' = Some g \<and> name g = ''k''"
    by (simp_all add: s_def Let_def nameInsenstive_en nameInsenstive_a storePut_def storeGet_def
        cyclicCore_def New_def WithFallback_def compileTranslation_def)
  from lookupBestFallback_cycle [OF fb st(4,5)]
  have "lookupBestFallback s ''a'' ''k'' = None" .
  with st show ?thesis
    unfolding LoadMap_def compileFallbacks_def s_def [symmetric]
    by (auto simp: sameOrder_def)
qed

text \<open>
  C10, amended: \<open>LoadMap\<close> has no path that returns an error; for a fallback
  configuration without a cycle it returns, with the error \<open>nil\<close>, for every core,
  input and range order.
\<close>

theorem LoadMap_returns_nil:
  "(finite (dom (fallbacks i)) \<and> acyclic (fallbackEdges i)
      \<longrightarrow> (\<exists>i'. LoadMap E ro i langs = Some (i', None))) \<and>
   LoadMap E ro i langs \<noteq> Some (i'', Some e)"
proof (intro conjI impI)
  assume "finite (dom (fallbacks i)) \<and> acyclic (fallbackEdges i)"
  then have "wf (fallbackEdges (LoadMap_outer E i langs))"
    using fallbackEdges_cong [OF fallbacks_LoadMap_outer, of E i langs]
    by (simp add: wf_fallbackEdges)
  from compileFallbacks_outer_terminates [OF this]
  show "\<exists>i'. LoadMap E ro i langs = Some (i', None)"
    by (auto simp: LoadMap_def compileFallbacks_def split: option.splits)
next
  show "LoadMap E ro i langs \<noteq> Some (i'', Some e)"
    by (auto simp: LoadMap_def split: option.splits)
qed

theorem LoadMap_returns_nil_witness:
  "finite (dom (fallbacks chainCore)) \<and> acyclic (fallbackEdges chainCore) \<and>
   (\<exists>i'. LoadMap plainEngine (sameOrder [''k''] [''zh-tw'', ''ja-jp'']) chainCore
            [(''zh-tw'', [(''k'', ''Z'')]), (''ja-jp'', [])] = Some (i', None))"
  using chainCore_finite chainCore_acyclic
    LoadMap_returns_nil [where i = chainCore and E = plainEngine
      and ro = "sameOrder [''k''] [''zh-tw'', ''ja-jp'']"
      and langs = "[(''zh-tw'', [(''k'', ''Z'')]), (''ja-jp'', [])]"]
  by blast


section \<open>Fallback chains\<close>

lemma nameInsenstive_codes:
  "nameInsenstive ''zh-tw'' = ''zh-tw''"
  "nameInsenstive ''zh-cn'' = ''zh-cn''"
  "nameInsenstive ''zh-hk'' = ''zh-hk''"
  "nameInsenstive ''ja-jp'' = ''ja-jp''"
  "nameInsenstive ''ko-kr'' = ''ko-kr''"
  "nameInsenstive ''en-us'' = ''en-us''"
  by (simp_all add: canon_defs)

lemmas eval_defs = afterLoad_def Let_def LoadMap_def New_def WithFallback_def storePut_def
  storeGet_def compileFallbacks_def sameOrder_def compileTranslation_def compileText_def
  strings_Split_def compileSegment_def I18n_pluralizor_def NewLocale_def lookup_def
  sliceIndex_def render_def String_def lookupBestFallback_def walkFallbacks_Nil
  walkFallbacks_Cons contextAt_def

text \<open>
  C1 at its own configuration: default locale \<open>ja-jp\<close>, \<open>zh-tw\<close> falling back to
  \<open>zh-hk\<close> and \<open>zh-cn\<close>, the key \<open>k\<close> defined in \<open>zh-cn\<close> and \<open>ja-jp\<close> only.
  The walk for \<open>zh-tw\<close> calls itself on \<open>zh-hk\<close>, which has no chain of its own, and
  that call returns the default locale's translation; \<open>zh-cn\<close> is never consulted.
  A locale bound to \<open>zh-tw\<close> renders \<open>k\<close> as \<open>ja-jp\<close>'s text.
\<close>

theorem chain_entry_without_own_chain_shadows_rest:
  "afterLoad
     (LoadMap plainEngine (sameOrder [''k''] [''zh-tw'', ''zh-cn'', ''ja-jp'']) readmeCore
        [(''zh-tw'', [(''hello'', ''T'')]), (''zh-cn'', [(''k'', ''C'')]), (''ja-jp'', [(''k'', ''J'')])])
     (\<lambda>i. (bound (NewLocale i [''zh-tw'']),
            fst (String plainEngine (NewLocale i [''zh-tw'']) i ''k'' []),
            fst (String plainEngine (NewLocale i [''zh-cn'']) i ''k'' [])))
   = Some (''zh-tw'', Inr ''J'', Inr ''C'')"
  by (simp add: readmeCore_def eval_defs nameInsenstive_codes)


text \<open>
  C4, as stated, with the default locale \<open>en-us\<close> of the package's own test and the
  key \<open>k\<close> defined in \<open>zh-tw\<close> only: the backfill pass ranges over the names of the
  default locale, \<open>k\<close> is not among them, and a locale bound to \<open>ja-jp\<close> renders
  \<open>k\<close> as itself.
\<close>

theorem recursive_fallback_counterexample:
  "afterLoad
     (LoadMap plainEngine (sameOrder [''hello''] [''en-us'', ''zh-tw'', ''ja-jp'']) recursiveCore
        [(''en-us'', [(''hello'', ''H'')]), (''zh-tw'', [(''k'', ''Z'')]), (''ja-jp'', [(''hello'', ''X'')])])
     (\<lambda>i. (bound (NewLocale i [''ja-jp'']),
            fst (String plainEngine (NewLocale i [''ja-jp'']) i ''k'' []),
            fst (String plainEngine (NewLocale i [''zh-tw'']) i ''k'' [])))
   = Some (''ja-jp'', Inr ''k'', Inr ''Z'')"
  by (simp add: recursiveCore_def recursiveChain_def eval_defs nameInsenstive_codes)

lemma storeGet_storePut:
  "storeGet (storePut i lc nm v) lc' n = (if lc' = lc \<and> n = nm then Some v else storeGet i lc' n)"
  by (simp add: storeGet_def storePut_def split: option.splits)

lemma slot_storePut:
  "compiledTranslations (storePut i lc nm v) lc' = None \<longleftrightarrow>
     lc' \<noteq> lc \<and> compiledTranslations i lc' = None"
  by (simp add: storePut_def)

lemma compileFallbacks_inner_default:
  "compileFallbacks_inner s nm ls = Some s' \<Longrightarrow>
     storeGet s' (defaultLocale s) n = storeGet s (defaultLocale s) n"
proof (induction ls arbitrary: s)
  case Nil
  then show ?case by simp
next
  case (Cons lc ls)
  show ?case
  proof (cases "\<exists>b. compileFallbacks_inner (storePut s lc nm b) nm ls = Some s' \<and>
      lc \<noteq> defaultLocale s")
    case True
    then obtain b where b: "compileFallbacks_inner (storePut s lc nm b) nm ls = Some s'"
      "lc \<noteq> defaultLocale s" by blast
    from Cons.IH [OF b(1)] b(2) show ?thesis
      by (simp add: storePut_fields storeGet_storePut)
  next
    case False
    with Cons.prems have "compileFallbacks_inner s nm ls = Some s'"
      by (auto split: option.splits if_splits)
    then show ?thesis by (rule Cons.IH)
  qed
qed

lemma chain_lookup_ko:
  assumes "chainInv k t s"
  shows "lookupBestFallback s ''ko-kr'' k = Some (Some t)"
  using assms
  by (simp add: chainInv_def recursiveChain_def lookupBestFallback_def walkFallbacks_Cons)

lemma chain_lookup_ja:
  assumes "chainInv k t s"
  shows "lookupBestFallback s ''ja-jp'' k = Some (Some t)"
  using assms chain_lookup_ko [OF assms]
  by (auto simp: chainInv_def recursiveChain_def lookupBestFallback_def walkFallbacks_Cons)

lemma chainInv_storePut_other:
  assumes "chainInv k t s" and "nm \<noteq> k \<or> lc \<notin> {''zh-tw'', ''ko-kr'', ''ja-jp'', defaultLocale s}"
  shows "chainInv k t (storePut s lc nm v)"
  using assms
  by (auto simp: chainInv_def storeGet_storePut storePut_fields slot_storePut)

lemma chainInv_storePut_chain:
  assumes "chainInv k t s" and "lc = ''ko-kr'' \<or> lc = ''ja-jp''" and "storeGet s lc k = None"
  shows "chainInv k t (storePut s lc k t)"
  using assms
  by (auto simp: chainInv_def storeGet_storePut storePut_fields slot_storePut)

lemma chain_inner:
  assumes "compileFallbacks_inner s nm ls = Some s'" and "chainInv k t s"
  shows "chainInv k t s' \<and> defaultLocale s' = defaultLocale s \<and>
         (storeGet s ''ja-jp'' k = Some t \<or> nm = k \<and> ''ja-jp'' \<in> set ls
            \<longrightarrow> storeGet s' ''ja-jp'' k = Some t)"
  using assms
proof (induction ls arbitrary: s)
  case Nil
  then show ?case by simp
next
  case (Cons lc ls)
  show ?case
  proof (cases "compiledTranslations s lc")
    case None
    with Cons.prems have "lc \<noteq> ''ja-jp''" by (auto simp: chainInv_def)
    with Cons.IH [of s] Cons.prems None show ?thesis by simp
  next
    case (Some m)
    note slot = this
    show ?thesis
    proof (cases "lc = defaultLocale s \<or> m nm \<noteq> None")
      case True
      with Cons.prems slot have run: "compileFallbacks_inner s nm ls = Some s'"
        by (auto split: if_splits)
      have "storeGet s ''ja-jp'' k = Some t" if "nm = k" "lc = ''ja-jp''"
        using that True Cons.prems(2) slot by (auto simp: chainInv_def storeGet_def)
      with Cons.IH [OF run Cons.prems(2)] show ?thesis by auto
    next
      case False
      then have miss: "lc \<noteq> defaultLocale s" "m nm = None" by simp_all
      then have absent: "storeGet s lc nm = None" using slot by (simp add: storeGet_def)
      show ?thesis
      proof (cases "lookupBestFallback s lc nm")
        case None
        with Cons.prems slot miss show ?thesis by simp
      next
        case (Some r)
        show ?thesis
        proof (cases r)
          case None
          with Some Cons.prems slot miss
          have run: "compileFallbacks_inner s nm ls = Some s'" by simp
          have "lc \<noteq> ''ja-jp''" if "nm = k"
            using chain_lookup_ja [OF Cons.prems(2)] Some None that by auto
          with Cons.IH [OF run Cons.prems(2)] show ?thesis by auto
        next
          case (Some b)
          with \<open>lookupBestFallback s lc nm = Some r\<close> Cons.prems slot miss
          have run: "compileFallbacks_inner (storePut s lc nm b) nm ls = Some s'" by simp
          have b: "b = t" if "nm = k" "lc = ''ko-kr'' \<or> lc = ''ja-jp''"
            using chain_lookup_ja [OF Cons.prems(2)] chain_lookup_ko [OF Cons.prems(2)]
              \<open>lookupBestFallback s lc nm = Some r\<close> Some that by auto
          have notzh: "lc \<noteq> ''zh-tw''" if "nm = k"
            using that absent Cons.prems(2) by (auto simp: chainInv_def)
          have inv: "chainInv k t (storePut s lc nm b)"
          proof (cases "nm = k \<and> (lc = ''ko-kr'' \<or> lc = ''ja-jp'')")
            case True
            with b absent chainInv_storePut_chain [OF Cons.prems(2), of lc] show ?thesis by auto
          next
            case False
            with miss notzh chainInv_storePut_other [OF Cons.prems(2), of nm lc b]
            show ?thesis by auto
          qed
          from Cons.IH [OF run inv] b show ?thesis
            by (auto simp: storeGet_storePut storePut_fields)
        qed
      qed
    qed
  qed
qed

lemma chain_outer:
  assumes "compileFallbacks_outer ro s ks = Some s'" and "chainInv k t s"
    and "storeGet s (defaultLocale s) k = Some g" and "name g = k"
    and "''ja-jp'' \<in> set (localesOrder ro k)"
  shows "chainInv k t s' \<and>
         (storeGet s ''ja-jp'' k = Some t \<or> k \<in> set ks \<longrightarrow> storeGet s' ''ja-jp'' k = Some t)"
  using assms
proof (induction ks arbitrary: s)
  case Nil
  then show ?case by simp
next
  case (Cons k' ks)
  show ?case
  proof (cases "storeGet s (defaultLocale s) k'")
    case None
    with Cons.prems have "k' \<noteq> k" by auto
    with Cons.IH [of s] Cons.prems None show ?thesis by simp
  next
    case (Some g')
    with Cons.prems obtain s1 where
      s1: "compileFallbacks_inner s (name g') (localesOrder ro k') = Some s1"
      and run: "compileFallbacks_outer ro s1 ks = Some s'"
      by (auto split: option.splits)
    from chain_inner [OF s1 Cons.prems(2)]
    have inner: "chainInv k t s1" "defaultLocale s1 = defaultLocale s"
      "storeGet s ''ja-jp'' k = Some t \<or> name g' = k \<and> ''ja-jp'' \<in> set (localesOrder ro k')
         \<longrightarrow> storeGet s1 ''ja-jp'' k = Some t"
      by simp_all
    have dflt: "storeGet s1 (defaultLocale s1) k = Some g"
    proof -
      have "storeGet s1 (defaultLocale s) k = storeGet s (defaultLocale s) k"
        using s1 by (rule compileFallbacks_inner_default)
      with inner(2) Cons.prems(3) show ?thesis by simp
    qed
    have "storeGet s1 ''ja-jp'' k = Some t" if "k' = k"
      using that inner(3) Some Cons.prems(3,4,5) by auto
    with Cons.IH [OF run inner(1) dflt Cons.prems(4,5)] inner(3) show ?thesis by auto
  qed
qed


lemma recursiveChain_edges:
  assumes "fallbacks s = recursiveChain"
  shows "wf (fallbackEdges s)"
proof -
  have "fallbackEdges s \<subseteq> measure chainRank"
    using assms
    by (auto simp: fallbackEdges_def recursiveChain_def chainRank_def split: if_splits)
  then show ?thesis by (rule wf_subset [OF wf_measure])
qed

lemma defaultLocale_LoadMap_inner: "defaultLocale (LoadMap_inner E i lc trs) = defaultLocale i"
  by (induction E i lc trs rule: LoadMap_inner.induct) (simp_all add: storePut_fields)

lemma defaultLocale_LoadMap_outer: "defaultLocale (LoadMap_outer E i langs) = defaultLocale i"
  by (induction E i langs rule: LoadMap_outer.induct)
     (simp_all add: Let_def defaultLocale_LoadMap_inner)

text \<open>
  C4, amended: with the fallback map \<open>ja-jp \<rightarrow> ko-kr \<rightarrow> zh-tw\<close>, a key \<open>k\<close> that the
  loaded store defines in \<open>zh-tw\<close> and in the default locale and in neither \<open>ja-jp\<close>
  nor \<open>ko-kr\<close>, and \<open>ja-jp\<close> loaded, \<open>LoadMap\<close> returns, and a locale bound to
  \<open>ja-jp\<close> resolves \<open>k\<close> to \<open>zh-tw\<close>'s translation, in whatever order the pass
  ranges over the maps.
\<close>

theorem recursive_fallback_resolves:
  assumes "fallbacks i0 = [''ja-jp'' \<mapsto> [''ko-kr''], ''ko-kr'' \<mapsto> [''zh-tw'']]"
    and "s = LoadMap_outer E i0 langs"
    and "storeGet s ''zh-tw'' k = Some t"
    and "storeGet s (defaultLocale i0) k = Some g" and "name g = k"
    and "compiledTranslations s ''ja-jp'' = Some m" and "m k = None"
    and "storeGet s ''ko-kr'' k = None"
    and "k \<in> set (namesOrder ro)" and "''ja-jp'' \<in> set (localesOrder ro k)"
  shows "\<exists>i'. LoadMap E ro i0 langs = Some (i', None) \<and>
              NewLocale i' [''ja-jp''] = \<lparr>bound = ''ja-jp''\<rparr> \<and>
              lookup E \<lparr>bound = ''ja-jp''\<rparr> i' k = (t, i')"
proof -
  have fb: "fallbacks s = recursiveChain"
    using assms(1,2) by (simp add: fallbacks_LoadMap_outer recursiveChain_def)
  have dl: "defaultLocale s = defaultLocale i0"
    using assms(2) by (simp add: defaultLocale_LoadMap_outer)
  have ja: "storeGet s ''ja-jp'' k = None"
    using assms(6,7) by (simp add: storeGet_def)
  have inv: "chainInv k t s"
    using fb dl ja assms(3,4,6,8) by (auto simp: chainInv_def)
  from compileFallbacks_outer_terminates [OF recursiveChain_edges [OF fb]]
  obtain i' where run: "compileFallbacks_outer ro s (namesOrder ro) = Some i'" by blast
  from chain_outer [OF run inv _ assms(5,10)] dl assms(4,9)
  have res: "chainInv k t i'" "storeGet i' ''ja-jp'' k = Some t" by auto
  have 1: "LoadMap E ro i0 langs = Some (i', None)"
    using run assms(2) by (simp add: LoadMap_def compileFallbacks_def)
  have 2: "NewLocale i' [''ja-jp''] = \<lparr>bound = ''ja-jp''\<rparr>"
    using res(1) by (auto simp: NewLocale_def chainInv_def nameInsenstive_codes)
  have 3: "lookup E \<lparr>bound = ''ja-jp''\<rparr> i' k = (t, i')"
    using res(2) by (simp add: lookup_def)
  from 1 2 3 show ?thesis by blast
qed

theorem recursive_fallback_resolves_witness:
  "fallbacks recursiveCore = [''ja-jp'' \<mapsto> [''ko-kr''], ''ko-kr'' \<mapsto> [''zh-tw'']] \<and>
   storeGet (LoadMap_outer plainEngine recursiveCore testBatch) ''zh-tw'' ''k''
     = Some (compileTranslation plainEngine recursiveCore ''zh-tw'' ''k'' ''Z'') \<and>
   storeGet (LoadMap_outer plainEngine recursiveCore testBatch) ''ja-jp'' ''k'' = None \<and>
   storeGet (LoadMap_outer plainEngine recursiveCore testBatch) ''ko-kr'' ''k'' = None \<and>
   (\<exists>i'. LoadMap plainEngine (sameOrder [''k''] [''ko-kr'', ''ja-jp'', ''zh-tw'', ''en-us''])
            recursiveCore testBatch = Some (i', None) \<and>
         NewLocale i' [''ja-jp''] = \<lparr>bound = ''ja-jp''\<rparr> \<and>
         lookup plainEngine \<lparr>bound = ''ja-jp''\<rparr> i' ''k''
           = (compileTranslation plainEngine recursiveCore ''zh-tw'' ''k'' ''Z'', i'))"
proof -
  define s where "s = LoadMap_outer plainEngine recursiveCore testBatch"
  define g where "g = compileTranslation plainEngine recursiveCore ''en-us'' ''k'' ''E''"
  define m where "m = [''hello'' \<mapsto> compileTranslation plainEngine recursiveCore ''ja-jp'' ''hello'' ''X'']"
  note defs = s_def g_def m_def testBatch_def recursiveCore_def recursiveChain_def
    nameInsenstive_codes Let_def New_def WithFallback_def storePut_def storeGet_def
    compileTranslation_def I18n_pluralizor_def
  have h1: "fallbacks recursiveCore = [''ja-jp'' \<mapsto> [''ko-kr''], ''ko-kr'' \<mapsto> [''zh-tw'']]"
    by (simp add: recursiveCore_def recursiveChain_def New_def WithFallback_def)
  have h3: "storeGet s ''zh-tw'' ''k'' = Some (compileTranslation plainEngine recursiveCore ''zh-tw'' ''k'' ''Z'')"
    by (simp add: defs)
  have h4: "storeGet s (defaultLocale recursiveCore) ''k'' = Some g"
    by (simp add: defs)
  have h5: "name g = ''k''"
    by (simp add: defs)
  have h6: "compiledTranslations s ''ja-jp'' = Some m"
    by (simp add: defs)
  have h7: "m ''k'' = None"
    by (simp add: m_def)
  have h8: "storeGet s ''ko-kr'' ''k'' = None"
    by (simp add: defs)
  have h9: "''k'' \<in> set (namesOrder (sameOrder [''k''] [''ko-kr'', ''ja-jp'', ''zh-tw'', ''en-us'']))"
    by (simp add: sameOrder_def)
  have h10: "''ja-jp'' \<in> set (localesOrder (sameOrder [''k''] [''ko-kr'', ''ja-jp'', ''zh-tw'', ''en-us'']) ''k'')"
    by (simp add: sameOrder_def)
  have ja: "storeGet s ''ja-jp'' ''k'' = None"
    using h6 h7 by (simp add: storeGet_def)
  show ?thesis
    using h1 h3 h8 ja recursive_fallback_resolves [OF h1 s_def h3 h4 h5 h6 h7 h8 h9 h10]
    unfolding s_def by blast
qed


section \<open>Successive loads\<close>

text \<open>
  C5, as stated, at two loads of the default locale \<open>en\<close>: the first loads the name
  \<open>n1\<close>, the second the name \<open>n2\<close>. After the second load the store has no entry
  for \<open>(en, n1)\<close>, and \<open>n1\<close> renders as itself.
\<close>

theorem LoadMap_later_load_counterexample:
  "afterLoad
     (LoadMap plainEngine (sameOrder [''n1''] [''en'']) (New noDecoder ''en'' [])
        [(''en'', [(''n1'', ''A'')])])
     (\<lambda>i1. (fst (String plainEngine (NewLocale i1 [''en'']) i1 ''n1'' []),
             afterLoad
               (LoadMap plainEngine (sameOrder [''n2''] [''en'']) i1 [(''en'', [(''n2'', ''B'')])])
               (\<lambda>i2. (storeGet i2 ''en'' ''n1'',
                       fst (String plainEngine (NewLocale i2 [''en'']) i2 ''n1'' []),
                       fst (String plainEngine (NewLocale i2 [''en'']) i2 ''n2'' [])))))
   = Some (Inr ''A'', Some (None, Inr ''n1'', Inr ''B''))"
  by (simp add: eval_defs nameInsenstive_en)

lemma backfilled_refl: "backfilled s s"
  by (simp add: backfilled_def)

lemma backfilled_trans:
  assumes "backfilled s s1" and "backfilled s1 s2"
  shows "backfilled s s2"
  unfolding backfilled_def
proof (intro conjI allI impI)
  show "defaultLocale s2 = defaultLocale s"
    using assms by (simp add: backfilled_def)
next
  fix lc n v
  assume "storeGet s lc n = Some v"
  with assms show "storeGet s2 lc n = Some v"
    by (simp add: backfilled_def)
next
  fix lc n v
  assume a: "storeGet s2 lc n = Some v"
  from assms have d: "defaultLocale s1 = defaultLocale s" by (simp add: backfilled_def)
  from a assms(2) consider "storeGet s1 lc n = Some v"
    | f where "lc \<noteq> defaultLocale s1" "storeGet s1 f n = Some v" "storeGet s1 lc n \<noteq> Some v"
    unfolding backfilled_def by blast
  then show "storeGet s lc n = Some v \<or>
        lc \<noteq> defaultLocale s \<and> (\<exists>f. storeGet s f n = Some v)"
  proof cases
    case 1
    with assms(1) show ?thesis unfolding backfilled_def by blast
  next
    case 2
    from 2(2) assms(1) have "\<exists>f. storeGet s f n = Some v"
      unfolding backfilled_def by blast
    with 2(1) d show ?thesis by simp
  qed
qed

lemma walkFallbacks_source:
  assumes "walkFallbacks s nm fbs = Some y"
  shows "\<forall>v. y = Some v \<longrightarrow> (\<exists>f. storeGet s f nm = Some v)"
proof (rule walkFallbacks.raw_induct
    [where P = "\<lambda>s nm fbs y. \<forall>v. y = Some v \<longrightarrow> (\<exists>f. storeGet s f nm = Some v)", OF _ assms],
    goal_cases)
  case (1 walk s nm fbs y)
  show ?case
  proof (cases fbs)
    case Nil
    with 1(2) show ?thesis by simp
  next
    case (Cons fb rest)
    show ?thesis
    proof (cases "storeGet s fb nm")
      case (Some v)
      with 1(2) Cons show ?thesis by auto
    next
      case None
      with 1(2) Cons obtain j where
        j: "(case fallbacks s fb of
               None \<Rightarrow> (case storeGet s (defaultLocale s) nm of
                          Some v \<Rightarrow> Some (Some v) | None \<Rightarrow> Some None)
             | Some fbs' \<Rightarrow> walk s nm fbs') = Some j"
        and y: "(case j of Some t \<Rightarrow> Some (Some t) | None \<Rightarrow> walk s nm rest) = Some y"
        by (auto simp: bind_eq_Some_conv)
      have "\<exists>f. storeGet s f nm = Some v" if "j = Some v" for v
        using j that 1(1) by (auto split: option.splits)
      with y 1(1) show ?thesis by (cases j) auto
    qed
  qed
qed

lemma lookupBestFallback_source:
  assumes "lookupBestFallback s lc nm = Some (Some v)"
  shows "\<exists>f. storeGet s f nm = Some v"
  using assms walkFallbacks_source [of s nm _ "Some v"]
  by (auto simp: lookupBestFallback_def walkFallbacks_Nil split: option.splits)

lemma backfilled_storePut:
  assumes "storeGet s lc nm = None" and "lc \<noteq> defaultLocale s"
    and "storeGet s f nm = Some b"
  shows "backfilled s (storePut s lc nm b)"
  using assms by (auto simp: backfilled_def storeGet_storePut storePut_fields)

lemma backfilled_inner:
  "compileFallbacks_inner s nm ls = Some s' \<Longrightarrow> backfilled s s'"
proof (induction ls arbitrary: s)
  case Nil
  then show ?case by (simp add: backfilled_refl)
next
  case (Cons lc ls)
  show ?case
  proof (cases "compileFallbacks_inner s nm ls = Some s'")
    case True
    then show ?thesis by (rule Cons.IH)
  next
    case False
    with Cons.prems obtain m b where
      step: "compiledTranslations s lc = Some m" "lc \<noteq> defaultLocale s" "m nm = None"
        "lookupBestFallback s lc nm = Some (Some b)"
        "compileFallbacks_inner (storePut s lc nm b) nm ls = Some s'"
      by (auto split: option.splits if_splits)
    from step(1,3) have absent: "storeGet s lc nm = None" by (simp add: storeGet_def)
    from lookupBestFallback_source [OF step(4)]
    obtain f where "storeGet s f nm = Some b" ..
    with absent step(2) have "backfilled s (storePut s lc nm b)"
      by (intro backfilled_storePut)
    then show ?thesis using Cons.IH [OF step(5)] by (rule backfilled_trans)
  qed
qed

lemma backfilled_outer:
  "compileFallbacks_outer ro s ks = Some s' \<Longrightarrow> backfilled s s'"
proof (induction ks arbitrary: s)
  case Nil
  then show ?case by (simp add: backfilled_refl)
next
  case (Cons k ks)
  show ?case
  proof (cases "storeGet s (defaultLocale s) k")
    case None
    with Cons show ?thesis by simp
  next
    case (Some g)
    with Cons.prems obtain s1 where
      s1: "compileFallbacks_inner s (name g) (localesOrder ro k) = Some s1"
        "compileFallbacks_outer ro s1 ks = Some s'"
      by (auto split: option.splits)
    from backfilled_inner [OF s1(1)] Cons.IH [OF s1(2)] show ?thesis
      by (rule backfilled_trans)
  qed
qed

lemma slot_LoadMap_inner_other:
  "lc' \<noteq> lc \<Longrightarrow> compiledTranslations (LoadMap_inner E i lc trs) lc' = compiledTranslations i lc'"
  by (induction E i lc trs rule: LoadMap_inner.induct) (simp_all add: storePut_def)

lemma storeGet_LoadMap_inner_miss:
  "n \<notin> fst ` set trs \<Longrightarrow> storeGet (LoadMap_inner E i lc trs) lc n = storeGet i lc n"
  by (induction E i lc trs rule: LoadMap_inner.induct) (simp_all add: storeGet_storePut)

lemma slot_LoadMap_outer_other:
  "L \<notin> (\<lambda>e. nameInsenstive (fst e)) ` set langs \<Longrightarrow>
     compiledTranslations (LoadMap_outer E i langs) L = compiledTranslations i L"
  by (induction E i langs rule: LoadMap_outer.induct)
     (simp_all add: Let_def slot_LoadMap_inner_other)

lemma storeGet_LoadMap_outer_miss:
  assumes "(lc0, trs) \<in> set langs" and "distinct (map (\<lambda>e. nameInsenstive (fst e)) langs)"
    and "n1 \<notin> fst ` set trs"
  shows "storeGet (LoadMap_outer E i langs) (nameInsenstive lc0) n1 = None"
  using assms
proof (induction langs arbitrary: i)
  case Nil
  then show ?case by simp
next
  case (Cons e langs)
  obtain l ts where e: "e = (l, ts)" by (cases e)
  let ?i1 = "i\<lparr>compiledTranslations := (compiledTranslations i)(nameInsenstive l \<mapsto> Map.empty)\<rparr>"
  show ?case
  proof (cases "(lc0, trs) \<in> set langs")
    case True
    with Cons.IH [of "LoadMap_inner E ?i1 (nameInsenstive l) ts"] Cons.prems e
    show ?thesis by (simp add: Let_def)
  next
    case False
    with Cons.prems e have same: "l = lc0" "ts = trs"
      and fresh: "nameInsenstive lc0 \<notin> (\<lambda>e. nameInsenstive (fst e)) ` set langs"
      by auto
    have "storeGet (LoadMap_outer E (LoadMap_inner E ?i1 (nameInsenstive l) ts) langs)
            (nameInsenstive lc0) n1
          = storeGet (LoadMap_inner E ?i1 (nameInsenstive l) ts) (nameInsenstive lc0) n1"
      by (simp add: storeGet_def slot_LoadMap_outer_other [OF fresh])
    also have "\<dots> = storeGet ?i1 (nameInsenstive lc0) n1"
      using same Cons.prems(3) by (simp add: storeGet_LoadMap_inner_miss)
    also have "\<dots> = None"
      using same by (simp add: storeGet_def)
    finally show ?thesis using e by (simp add: Let_def)
  qed
qed

lemma LoadMap_terminates:
  assumes "wf (fallbackEdges i)"
  shows "\<exists>i'. LoadMap E ro i langs = Some (i', None)"
proof -
  have "wf (fallbackEdges (LoadMap_outer E i langs))"
    using assms fallbackEdges_cong [OF fallbacks_LoadMap_outer, of E i langs] by simp
  from compileFallbacks_outer_terminates [OF this] show ?thesis
    by (auto simp: LoadMap_def compileFallbacks_def split: option.splits)
qed

lemma firstLoad_entry: "storeGet firstLoad ''en'' ''n1'' \<noteq> None"
  by (simp add: firstLoad_def eval_defs nameInsenstive_en)

lemma firstLoad_wf: "wf (fallbackEdges firstLoad)"
proof -
  have "fallbackEdges firstLoad = {}"
    by (simp add: fallbackEdges_def firstLoad_def eval_defs nameInsenstive_en)
  then show ?thesis by simp
qed

text \<open>
  C5, amended: \<open>LoadMap\<close> replaces the map of every locale it loads. For a locale of
  the batch (loaded once, names compared in canonical form) and a name that the batch
  does not give for it, the store after the call holds no entry when the locale is the
  default one, and otherwise at most a copy that the backfill pass took from another
  locale; what the locale held under that name before the call is discarded.
\<close>

theorem LoadMap_replaces_locale:
  assumes "LoadMap E ro i langs = Some (i', err)"
    and "(lc0, trs) \<in> set langs"
    and "distinct (map (\<lambda>e. nameInsenstive (fst e)) langs)"
    and "n1 \<notin> fst ` set trs"
  shows "(nameInsenstive lc0 = defaultLocale i \<longrightarrow> storeGet i' (nameInsenstive lc0) n1 = None) \<and>
         (\<forall>v. storeGet i' (nameInsenstive lc0) n1 = Some v \<longrightarrow>
            (\<exists>f. f \<noteq> nameInsenstive lc0 \<and> storeGet (LoadMap_outer E i langs) f n1 = Some v))"
proof -
  let ?s = "LoadMap_outer E i langs"
  let ?L = "nameInsenstive lc0"
  from assms(1) have run: "compileFallbacks_outer ro ?s (namesOrder ro) = Some i'"
    by (auto simp: LoadMap_def compileFallbacks_def split: option.splits)
  from backfilled_outer [OF run] have bf: "backfilled ?s i'" .
  have miss: "storeGet ?s ?L n1 = None"
    using assms(2,3,4) by (rule storeGet_LoadMap_outer_miss)
  have src: "?L \<noteq> defaultLocale i \<and> (\<exists>f. f \<noteq> ?L \<and> storeGet ?s f n1 = Some v)"
    if "storeGet i' ?L n1 = Some v" for v
  proof -
    from bf that miss obtain f where "?L \<noteq> defaultLocale ?s" "storeGet ?s f n1 = Some v"
      unfolding backfilled_def by fastforce
    moreover from this miss have "f \<noteq> ?L" by auto
    ultimately show ?thesis by (auto simp: defaultLocale_LoadMap_outer)
  qed
  then show ?thesis by (cases "storeGet i' ?L n1") auto
qed

theorem LoadMap_replaces_locale_witness:
  "storeGet firstLoad ''en'' ''n1'' \<noteq> None \<and>
   nameInsenstive ''en'' = defaultLocale firstLoad \<and>
   (\<exists>i'. LoadMap plainEngine (sameOrder [''n2''] [''en'']) firstLoad [(''en'', [(''n2'', ''B'')])]
            = Some (i', None) \<and>
          storeGet i' (nameInsenstive ''en'') ''n1'' = None)"
proof -
  from LoadMap_terminates [OF firstLoad_wf]
  obtain i' where
    run: "LoadMap plainEngine (sameOrder [''n2''] [''en'']) firstLoad [(''en'', [(''n2'', ''B'')])]
            = Some (i', None)"
    by blast
  have h2: "(''en'', [(''n2'', ''B'')]) \<in> set [(''en'', [(''n2'', ''B'')])]" by simp
  have h3: "distinct (map (\<lambda>e. nameInsenstive (fst e)) [(''en'', [(''n2'', ''B'')])])" by simp
  have h4: "''n1'' \<notin> fst ` set [(''n2'', ''B'')]" by simp
  have d: "nameInsenstive ''en'' = defaultLocale firstLoad"
    by (simp add: firstLoad_def eval_defs nameInsenstive_en)
  from LoadMap_replaces_locale [OF run h2 h3 h4] d
  have "storeGet i' (nameInsenstive ''en'') ''n1'' = None" by blast
  with run d firstLoad_entry show ?thesis by blast
qed


section \<open>The model on the package's own examples\<close>

text \<open>The examples in the comment of \<open>nameInsenstive\<close> and in \<open>TestLoadFiles\<close>.\<close>

lemma nameInsenstive_examples:
  "nameInsenstive ''zh_TW.music.json'' = ''zh-tw''"
  "nameInsenstive ''zh_TW'' = ''zh-tw''"
  "nameInsenstive ''zh-TW'' = ''zh-tw''"
  "nameInsenstive ''test/zh_tw.hello.json'' = ''zh-tw''"
  by (simp_all add: canon_defs char_of_def bit_0)

text \<open>
  \<open>TestTextFallback\<close> of the package, with ASCII texts in place of its texts:
  \<open>ja-jp\<close> falls back to \<open>ko-kr\<close> and then to the default locale \<open>zh-tw\<close>.
\<close>

lemma TestTextFallback_model:
  "afterLoad
     (LoadMap plainEngine
        (sameOrder [''test_message'', ''Hello, world!'', ''Apples'']
           [''en-us'', ''zh-tw'', ''ja-jp'', ''ko-kr''])
        (New noDecoder ''zh-tw'' [WithFallback [''ja-jp'' \<mapsto> [''ko-kr'']]])
        [(''en-us'', [(''Apples'', ''None | 1 Apple | Apples'')]),
         (''zh-tw'', [(''test_message'', ''ZH message''), (''Hello, world!'', ''ZH hello''),
                      (''Apples'', ''ZH none | ZH one | ZH many'')]),
         (''ja-jp'', [(''test_message'', ''JA message'')]),
         (''ko-kr'', [(''test_message'', ''KO message''), (''Hello, world!'', ''KO hello'')])])
     (\<lambda>i. map (\<lambda>f. fst (f (NewLocale i [''ja-jp'']) i))
            [\<lambda>l i. String plainEngine l i ''test_message'' [],
             \<lambda>l i. String plainEngine l i ''Hello, world!'' [],
             \<lambda>l i. Number plainEngine l i ''Apples'' 0 [],
             \<lambda>l i. Number plainEngine l i ''Apples'' 1 [],
             \<lambda>l i. Number plainEngine l i ''Apples'' 2 [],
             \<lambda>l i. String plainEngine l i ''Ni hao'' []])
   = Some [Inr ''JA message'', Inr ''KO hello'', Inr ''ZH none'', Inr ''ZH one'', Inr ''ZH many'',
           Inr ''Ni hao'']"
  by (simp add: eval_defs nameInsenstive_codes Number_def defaultPluralizor_def)


end
